theory Spec2Isabelle
  imports Complex_Main
begin

section \<open>The ballistic calculator of RaspberrypiScopeV1.py\<close>

text \<open>
  A shallow embedding of the class \<open>BallisticCalculator\<close>: the two ballistic tables,
  \<open>get_bullet_drop\<close>, \<open>calculate_wind_drift\<close> and \<open>calculate_adjustments\<close>.

  Conventions of the embedding.
  \<^item> A Python \<open>float\<close> is a \<open>real\<close>: arithmetic is exact, and there is neither NaN nor
    an infinity. Every statement below is about this exact reading of the arithmetic.
  \<^item> A Python \<open>int\<close> is an \<open>int\<close>; the table keys are ints, and a float is compared
    with a key by value (\<open>100.0 == 100\<close> in Python, with equal hashes).
  \<^item> A \<open>dict\<close> is an association list in insertion order.
  \<^item> \<open>None\<close> is \<open>None\<close> of an option type; a raised exception is \<open>Inl\<close> of a sum.
\<close>

subsection \<open>Data\<close>

datatype py_error = KeyError | ZeroDivisionError | ValueError

type_synonym table = "(int \<times> real) list"

datatype WindageData = WindageData (clicks: int) (direction: string)

datatype ElevationData = ElevationData (clicks: int) (direction: string)

text \<open>
  The object \<open>self\<close>: the instance attribute \<open>drop_data\<close> and the class attribute
  \<open>WIND_DRIFT_DATA\<close>, both read through \<open>self\<close> in the source.
\<close>

record BallisticCalculator =
  drop_data :: table
  WIND_DRIFT_DATA :: table

definition MOA_CONVERSION :: real where
  "MOA_CONVERSION = 1.047"

definition CLICKS_PER_MOA :: int where
  "CLICKS_PER_MOA = 4"

text \<open>The object built by \<open>__init__\<close> (its display and serial fields play no part here).\<close>

definition init_calculator :: BallisticCalculator where
  "init_calculator =
     \<lparr> drop_data =
         [(100, -1.92), (200, -9.73), (300, -24.62), (400, -48.11), (500, -81.23),
          (600, -125.47), (700, -182.31), (800, -253.15), (900, -339.84), (1000, -444.27)],
       WIND_DRIFT_DATA =
         [(100, 0.5), (200, 2.1), (300, 4.9), (400, 9.0), (500, 14.6),
          (600, 21.8), (700, 30.9), (800, 42.1), (900, 55.7), (1000, 71.9)] \<rparr>"

subsection \<open>Python primitives\<close>

text \<open>\<open>sorted(d.keys())\<close>.\<close>

definition sorted_keys :: "table \<Rightarrow> int list" where
  "sorted_keys t = sort (map fst t)"

text \<open>\<open>d[x]\<close> guarded by \<open>x in d\<close>, for a float \<open>x\<close>: the value stored under the key equal to \<open>x\<close>.\<close>

fun lookup_float :: "table \<Rightarrow> real \<Rightarrow> real option" where
  "lookup_float [] x = None"
| "lookup_float ((k, v) # t) x = (if real_of_int k = x then Some v else lookup_float t x)"

text \<open>\<open>d[k]\<close> for an int key: KeyError when the key is missing.\<close>

definition getitem :: "table \<Rightarrow> int \<Rightarrow> py_error + real" where
  "getitem t k = (case map_of t k of None \<Rightarrow> Inl KeyError | Some v \<Rightarrow> Inr v)"

text \<open>\<open>min(xs)\<close> and \<open>max(xs)\<close>: ValueError on the empty list.\<close>

definition py_min :: "int list \<Rightarrow> py_error + int" where
  "py_min xs = (case xs of [] \<Rightarrow> Inl ValueError | x # r \<Rightarrow> Inr (fold min r x))"

definition py_max :: "int list \<Rightarrow> py_error + int" where
  "py_max xs = (case xs of [] \<Rightarrow> Inl ValueError | x # r \<Rightarrow> Inr (fold max r x))"

text \<open>\<open>a / b\<close> on floats: ZeroDivisionError when the divisor is zero.\<close>

definition py_truediv :: "real \<Rightarrow> real \<Rightarrow> py_error + real" where
  "py_truediv a b = (if b = 0 then Inl ZeroDivisionError else Inr (a / b))"

text \<open>\<open>round(x)\<close> with one argument: the nearest int, a tie going to the even one.\<close>

definition py_round :: "real \<Rightarrow> int" where
  "py_round x =
     (let f = \<lfloor>x\<rfloor>; r = x - of_int f
      in if r < 1 / 2 then f else if 1 / 2 < r then f + 1 else if even f then f else f + 1)"

text \<open>\<open>math.radians\<close>.\<close>

definition radians :: "real \<Rightarrow> real" where
  "radians a = a * pi / 180"

subsection \<open>The interpolation step shared by both lookups\<close>

text \<open>
  \<open>v1, v2 = d[d1], d[d2]\<close> followed by \<open>v1 + (v2 - v1) * ((x - d1) / (d2 - d1))\<close>
  (lines 96-97 and 192-193).
\<close>

definition interpolate :: "table \<Rightarrow> real \<Rightarrow> int \<Rightarrow> int \<Rightarrow> py_error + real" where
  "interpolate t x d1 d2 =
     (case getitem t d1 of Inl e \<Rightarrow> Inl e | Inr v1 \<Rightarrow>
       (case getitem t d2 of Inl e \<Rightarrow> Inl e | Inr v2 \<Rightarrow>
         (case py_truediv (x - of_int d1) (of_int (d2 - d1)) of Inl e \<Rightarrow> Inl e | Inr q \<Rightarrow>
            Inr (v1 + (v2 - v1) * q))))"

subsection \<open>get_bullet_drop\<close>

text \<open>
  The loop of lines 189-193 over the adjacent pairs of \<open>distances\<close>: it returns at the
  first pair that brackets \<open>x\<close>; falling off the end is line 194.
\<close>

fun drop_loop :: "table \<Rightarrow> real \<Rightarrow> int list \<Rightarrow> py_error + real option" where
  "drop_loop t x (d1 # d2 # ds) =
     (if of_int d1 < x \<and> x < of_int d2
      then (case interpolate t x d1 d2 of Inl e \<Rightarrow> Inl e | Inr v \<Rightarrow> Inr (Some v))
      else drop_loop t x (d2 # ds))"
| "drop_loop t x ds = Inr None"

definition get_bullet_drop :: "BallisticCalculator \<Rightarrow> real \<Rightarrow> py_error + real option" where
  "get_bullet_drop self distance_yards =
     (let distances = sorted_keys (drop_data self) in
      case lookup_float (drop_data self) distance_yards of
        Some v \<Rightarrow> Inr (Some v)
      | None \<Rightarrow>
         (case py_min distances of Inl e \<Rightarrow> Inl e | Inr lo \<Rightarrow>
           (if distance_yards < of_int lo then Inr None
            else (case py_max distances of Inl e \<Rightarrow> Inl e | Inr hi \<Rightarrow>
              (if distance_yards > of_int hi then Inr None
               else drop_loop (drop_data self) distance_yards distances)))))"

subsection \<open>calculate_wind_drift\<close>

text \<open>
  The loop of lines 93-97: it has no \<open>return\<close> or \<open>break\<close>, so it visits every adjacent
  pair and each bracketing pair overwrites \<open>base_drift\<close>.
\<close>

fun drift_loop :: "table \<Rightarrow> real \<Rightarrow> int list \<Rightarrow> real option \<Rightarrow> py_error + real option" where
  "drift_loop t x (d1 # d2 # ds) base_drift =
     (if of_int d1 < x \<and> x < of_int d2
      then (case interpolate t x d1 d2 of
              Inl e \<Rightarrow> Inl e
            | Inr v \<Rightarrow> drift_loop t x (d2 # ds) (Some v))
      else drift_loop t x (d2 # ds) base_drift)"
| "drift_loop t x ds base_drift = Inr base_drift"

text \<open>Lines 87-97: the value of \<open>base_drift\<close> when line 99 is reached.\<close>

definition base_drift_lookup :: "BallisticCalculator \<Rightarrow> real \<Rightarrow> py_error + real option" where
  "base_drift_lookup self distance_yards =
     (let distances = sorted_keys (WIND_DRIFT_DATA self) in
      case lookup_float (WIND_DRIFT_DATA self) distance_yards of
        Some v \<Rightarrow> Inr (Some v)
      | None \<Rightarrow> drift_loop (WIND_DRIFT_DATA self) distance_yards distances None)"

definition calculate_wind_drift ::
  "BallisticCalculator \<Rightarrow> real \<Rightarrow> real \<Rightarrow> real \<Rightarrow> py_error + real option" where
  "calculate_wind_drift self distance_yards wind_speed wind_angle =
     (case base_drift_lookup self distance_yards of
        Inl e \<Rightarrow> Inl e
      | Inr None \<Rightarrow> Inr None
      | Inr (Some base_drift) \<Rightarrow>
         (let wind_angle_rad = radians wind_angle;
              crosswind = \<bar>wind_speed * sin wind_angle_rad\<bar>;
              actual_drift = base_drift * (crosswind / 10)
          in if 0 \<le> wind_angle \<and> wind_angle \<le> 180
             then Inr (Some (- actual_drift))
             else Inr (Some actual_drift)))"

subsection \<open>calculate_adjustments\<close>

text \<open>
  \<open>abs(round(offset / (MOA_CONVERSION * (distance_yards / 100)) * CLICKS_PER_MOA))\<close>
  (lines 122-123 and 131-132).
\<close>

definition clicks_of :: "real \<Rightarrow> real \<Rightarrow> py_error + int" where
  "clicks_of offset_inches distance_yards =
     (case py_truediv offset_inches (MOA_CONVERSION * (distance_yards / 100)) of
        Inl e \<Rightarrow> Inl e
      | Inr moa \<Rightarrow> Inr \<bar>py_round (moa * of_int CLICKS_PER_MOA)\<bar>)"

definition calculate_adjustments ::
  "BallisticCalculator \<Rightarrow> real \<Rightarrow> real \<Rightarrow> real
     \<Rightarrow> py_error + (ElevationData option \<times> WindageData option)" where
  "calculate_adjustments self distance_yards wind_speed wind_angle =
     (case get_bullet_drop self distance_yards of
        Inl e \<Rightarrow> Inl e
      | Inr None \<Rightarrow> Inr (None, None)
      | Inr (Some drop_inches) \<Rightarrow>
         (case clicks_of drop_inches distance_yards of
            Inl e \<Rightarrow> Inl e
          | Inr elevation_clicks \<Rightarrow>
             (let elevation_direction = (if drop_inches < 0 then ''UP'' else ''DOWN'') in
              case calculate_wind_drift self distance_yards wind_speed wind_angle of
                Inl e \<Rightarrow> Inl e
              | Inr None \<Rightarrow>
                  Inr (Some (ElevationData elevation_clicks elevation_direction), None)
              | Inr (Some drift_inches) \<Rightarrow>
                 (case clicks_of drift_inches distance_yards of
                    Inl e \<Rightarrow> Inl e
                  | Inr windage_clicks \<Rightarrow>
                     (let windage_direction = (if drift_inches < 0 then ''LEFT'' else ''RIGHT'')
                      in Inr (Some (ElevationData elevation_clicks elevation_direction),
                              Some (WindageData windage_clicks windage_direction)))))))"

subsection \<open>Adjacent keys\<close>

text \<open>
  \<open>adjacent ds d1 d2\<close>: \<open>d1\<close> and \<open>d2\<close> are \<open>ds[i]\<close> and \<open>ds[i + 1]\<close> for some index \<open>i\<close>,
  the pairs that both loops visit.
\<close>

fun adjacent :: "int list \<Rightarrow> int \<Rightarrow> int \<Rightarrow> bool" where
  "adjacent (a # b # r) d1 d2 = ((a = d1 \<and> b = d2) \<or> adjacent (b # r) d1 d2)"
| "adjacent ds d1 d2 = False"

section \<open>Properties of the primitives\<close>

subsection \<open>Dictionary access\<close>

lemma lookup_float_of_int: "lookup_float t (of_int k) = map_of t k"
  by (induction t) auto

lemma lookup_float_None_iff:
  "lookup_float t x = None \<longleftrightarrow> (\<forall>k \<in> fst ` set t. real_of_int k \<noteq> x)"
  by (induction t) (auto split: if_splits)

lemma lookup_float_None_keys:
  "lookup_float t x = None \<longleftrightarrow> (\<forall>d \<in> set (sorted_keys t). real_of_int d \<noteq> x)"
  by (simp add: lookup_float_None_iff sorted_keys_def)

lemma getitem_key: "k \<in> set (sorted_keys t) \<Longrightarrow> \<exists>v. map_of t k = Some v"
  by (metis sorted_keys_def set_sort set_map domD dom_map_of_conv_image_fst)

lemma sorted_sorted_keys: "sorted (sorted_keys t)"
  by (simp add: sorted_keys_def)

lemma sorted_keys_Nil: "sorted_keys t = [] \<longleftrightarrow> t = []"
  by (metis sorted_keys_def length_sort length_map length_0_conv)

lemma interpolate_eq:
  assumes "map_of t d1 = Some v1" "map_of t d2 = Some v2" "d1 \<noteq> d2"
  shows "interpolate t x d1 d2
           = Inr (v1 + (v2 - v1) * (x - of_int d1) / (of_int d2 - of_int d1))"
  using assms by (simp add: interpolate_def getitem_def py_truediv_def)

subsection \<open>min and max of a sorted list\<close>

lemma fold_min_sorted: "sorted (a # r) \<Longrightarrow> fold min r a = a"
  by (induction r arbitrary: a) (auto simp: min_def)

lemma fold_max_sorted: "sorted (a # r) \<Longrightarrow> fold max r a = last (a # r)"
  by (induction r arbitrary: a) (auto simp: max_def)

lemma py_min_sorted: "sorted ds \<Longrightarrow> ds \<noteq> [] \<Longrightarrow> py_min ds = Inr (hd ds)"
  by (cases ds) (simp_all add: py_min_def fold_min_sorted)

lemma py_max_sorted: "sorted ds \<Longrightarrow> ds \<noteq> [] \<Longrightarrow> py_max ds = Inr (last ds)"
  by (cases ds) (simp_all add: py_max_def fold_max_sorted del: last.simps)

lemma sorted_hd_le: "sorted ds \<Longrightarrow> d \<in> set ds \<Longrightarrow> hd ds \<le> d"
  by (cases ds) auto

lemma sorted_le_last: "sorted ds \<Longrightarrow> d \<in> set ds \<Longrightarrow> d \<le> last ds"
  by (induction ds) (auto split: if_splits)

subsection \<open>Rounding\<close>

lemma py_round_of_int: "py_round (of_int n) = n"
  by (simp add: py_round_def)

lemma py_round_minus: "py_round (- x) = - py_round x"
proof (cases "x \<in> \<int>")
  case True
  then obtain n where "x = of_int n" by (auto elim: Ints_cases)
  then show ?thesis
    using py_round_of_int [of n] py_round_of_int [of "- n"] by simp
next
  case False
  then have "x \<noteq> of_int \<lfloor>x\<rfloor>" by (metis Ints_of_int)
  then have fl: "\<lfloor>- x\<rfloor> = - \<lfloor>x\<rfloor> - 1"
    by (simp add: floor_minus ceiling_altdef)
  have r: "- x - of_int (- \<lfloor>x\<rfloor> - 1) = 1 - (x - of_int \<lfloor>x\<rfloor>)" by simp
  show ?thesis
    unfolding py_round_def Let_def fl r by auto
qed

lemma py_round_nonneg: "0 \<le> x \<Longrightarrow> 0 \<le> py_round x"
  by (auto simp: py_round_def Let_def intro: add_nonneg_nonneg)

lemma py_round_abs: "\<bar>py_round x\<bar> = py_round \<bar>x\<bar>"
proof (cases "0 \<le> x")
  case True
  then show ?thesis using py_round_nonneg [of x] by simp
next
  case False
  then have "0 \<le> py_round (- x)" by (intro py_round_nonneg) simp
  with False show ?thesis by (simp add: py_round_minus)
qed

lemma py_round_nearest: "\<bar>real_of_int (py_round x) - x\<bar> \<le> 1 / 2"
proof -
  have "of_int \<lfloor>x\<rfloor> \<le> x" "x < of_int \<lfloor>x\<rfloor> + 1" by linarith+
  then show ?thesis by (auto simp: py_round_def Let_def)
qed

subsection \<open>Sines of the quarter turns\<close>

lemma sin_radians_0: "sin (radians 0) = 0"
  by (simp add: radians_def)

lemma sin_radians_90: "sin (radians 90) = 1"
  by (simp add: radians_def)

lemma sin_radians_180: "sin (radians 180) = 0"
  by (simp add: radians_def)

lemma sin_radians_270: "sin (radians 270) = - 1"
proof -
  have "radians 270 = 3 / 2 * pi" by (simp add: radians_def)
  then show ?thesis by (simp only: sin_3over2_pi)
qed

section \<open>The two loops\<close>

lemma adjacent_mem: "adjacent ds d1 d2 \<Longrightarrow> d1 \<in> set ds \<and> d2 \<in> set ds"
  by (induction ds d1 d2 rule: adjacent.induct) auto

lemma adjacent_sorted_split:
  "sorted ds \<Longrightarrow> adjacent ds d1 d2 \<Longrightarrow> d \<in> set ds \<Longrightarrow> d \<le> d1 \<or> d2 \<le> d"
proof (induction ds d1 d2 rule: adjacent.induct)
  case (1 a b r d1 d2)
  show ?case
  proof (cases "a = d1 \<and> b = d2")
    case True
    with 1 show ?thesis by auto
  next
    case False
    with 1 have adj: "adjacent (b # r) d1 d2" by simp
    then have "d1 \<in> set (b # r)" using adjacent_mem by blast
    with \<open>sorted (a # b # r)\<close> have "a \<le> d1" by auto
    with 1 adj show ?thesis by auto
  qed
qed simp_all

text \<open>No pair brackets a distance that lies on one side of every key.\<close>

lemma no_bracket_drop:
  "(\<forall>d \<in> set ds. x \<le> of_int d) \<or> (\<forall>d \<in> set ds. of_int d \<le> x)
     \<Longrightarrow> drop_loop t x ds = Inr None"
  by (induction t x ds rule: drop_loop.induct) auto

lemma no_bracket_drift:
  "(\<forall>d \<in> set ds. x \<le> of_int d) \<or> (\<forall>d \<in> set ds. of_int d \<le> x)
     \<Longrightarrow> drift_loop t x ds acc = Inr acc"
  by (induction t x ds acc rule: drift_loop.induct) auto

text \<open>On sorted keys, the one bracketing pair decides the result of either loop.\<close>

lemma drop_loop_adjacent:
  assumes "sorted ds" "adjacent ds d1 d2" "of_int d1 < x" "x < of_int d2"
  shows "drop_loop t x ds
           = (case interpolate t x d1 d2 of Inl e \<Rightarrow> Inl e | Inr v \<Rightarrow> Inr (Some v))"
  using assms
proof (induction ds d1 d2 rule: adjacent.induct)
  case (1 a b r d1 d2)
  show ?case
  proof (cases "a = d1 \<and> b = d2")
    case True
    with 1 show ?thesis by simp
  next
    case False
    with 1 have adj: "adjacent (b # r) d1 d2" by simp
    then have "d1 \<in> set (b # r)" using adjacent_mem by blast
    with \<open>sorted (a # b # r)\<close> have "b \<le> d1" by auto
    with \<open>of_int d1 < x\<close> have "\<not> x < of_int b" by linarith
    with 1 adj show ?thesis by simp
  qed
qed simp_all

lemma drift_loop_adjacent:
  assumes "sorted ds" "adjacent ds d1 d2" "of_int d1 < x" "x < of_int d2"
  shows "drift_loop t x ds acc
           = (case interpolate t x d1 d2 of Inl e \<Rightarrow> Inl e | Inr v \<Rightarrow> Inr (Some v))"
  using assms
proof (induction ds d1 d2 arbitrary: acc rule: adjacent.induct)
  case (1 a b r d1 d2)
  show ?case
  proof (cases "a = d1 \<and> b = d2")
    case True
    from \<open>sorted (a # b # r)\<close> True \<open>x < of_int d2\<close>
    have "\<forall>d \<in> set (b # r). x \<le> of_int d" by fastforce
    then have "\<And>acc'. drift_loop t x (b # r) acc' = Inr acc'"
      by (intro no_bracket_drift) blast
    with True 1 show ?thesis by (simp split: sum.splits)
  next
    case False
    with 1 have adj: "adjacent (b # r) d1 d2" by simp
    then have "d1 \<in> set (b # r)" using adjacent_mem by blast
    with \<open>sorted (a # b # r)\<close> have "b \<le> d1" by auto
    with \<open>of_int d1 < x\<close> have "\<not> x < of_int b" by linarith
    with 1 adj show ?thesis by simp
  qed
qed simp_all

text \<open>A distance within the keys that is no key lies strictly between two adjacent keys.\<close>

lemma exists_bracket:
  assumes "sorted ds" "ds \<noteq> []" "real_of_int (hd ds) \<le> x" "x \<le> of_int (last ds)"
    "\<forall>d \<in> set ds. of_int d \<noteq> x"
  shows "\<exists>d1 d2. adjacent ds d1 d2 \<and> of_int d1 < x \<and> x < of_int d2"
  using assms
proof (induction ds rule: induct_list012)
  case 1
  then show ?case by simp
next
  case (2 a)
  then show ?case by simp
next
  case (3 a b r)
  from 3 have ax: "of_int a < x" by auto
  show ?case
  proof (cases "x < of_int b")
    case True
    with ax show ?thesis by auto
  next
    case False
    with 3 have "of_int b < x" by auto
    with 3 have "\<exists>d1 d2. adjacent (b # r) d1 d2 \<and> of_int d1 < x \<and> x < of_int d2"
      by auto
    then show ?thesis by auto
  qed
qed

section \<open>The lookups\<close>

lemma no_key_between_adjacent:
  assumes "sorted ds" "adjacent ds d1 d2" "real_of_int d1 < x" "x < of_int d2" "d \<in> set ds"
  shows "of_int d \<noteq> x"
proof -
  from assms have "d \<le> d1 \<or> d2 \<le> d" by (intro adjacent_sorted_split)
  with assms show ?thesis by auto
qed

lemma get_bullet_drop_adjacent:
  assumes "adjacent (sorted_keys (drop_data self)) d1 d2" "of_int d1 < x" "x < of_int d2"
  shows "get_bullet_drop self x
           = (case interpolate (drop_data self) x d1 d2 of
                Inl e \<Rightarrow> Inl e | Inr v \<Rightarrow> Inr (Some v))"
proof -
  let ?ds = "sorted_keys (drop_data self)"
  have s: "sorted ?ds" by (rule sorted_sorted_keys)
  from assms(1) have mem: "d1 \<in> set ?ds" "d2 \<in> set ?ds" using adjacent_mem by blast+
  then have ne: "?ds \<noteq> []" by auto
  have nokey: "lookup_float (drop_data self) x = None"
    unfolding lookup_float_None_keys using no_key_between_adjacent [OF s assms] by blast
  have "hd ?ds \<le> d1" "d2 \<le> last ?ds"
    using s mem by (simp_all add: sorted_hd_le sorted_le_last)
  with assms have lo: "\<not> x < of_int (hd ?ds)" and hi: "\<not> of_int (last ?ds) < x" by linarith+
  show ?thesis
    unfolding get_bullet_drop_def Let_def
    using nokey lo hi drop_loop_adjacent [OF s assms]
    by (simp add: py_min_sorted [OF s ne] py_max_sorted [OF s ne])
qed

lemma base_drift_lookup_adjacent:
  assumes "adjacent (sorted_keys (WIND_DRIFT_DATA self)) d1 d2" "of_int d1 < x" "x < of_int d2"
  shows "base_drift_lookup self x
           = (case interpolate (WIND_DRIFT_DATA self) x d1 d2 of
                Inl e \<Rightarrow> Inl e | Inr v \<Rightarrow> Inr (Some v))"
proof -
  let ?ds = "sorted_keys (WIND_DRIFT_DATA self)"
  have s: "sorted ?ds" by (rule sorted_sorted_keys)
  have nokey: "lookup_float (WIND_DRIFT_DATA self) x = None"
    unfolding lookup_float_None_keys using no_key_between_adjacent [OF s assms] by blast
  show ?thesis
    unfolding base_drift_lookup_def Let_def
    using nokey drift_loop_adjacent [OF s assms] by simp
qed

lemma get_bullet_drop_key:
  "map_of (drop_data self) k = Some v \<Longrightarrow> get_bullet_drop self (of_int k) = Inr (Some v)"
  by (simp add: get_bullet_drop_def lookup_float_of_int)

lemma base_drift_lookup_key:
  "map_of (WIND_DRIFT_DATA self) k = Some v \<Longrightarrow> base_drift_lookup self (of_int k) = Inr (Some v)"
  by (simp add: base_drift_lookup_def lookup_float_of_int)

lemma get_bullet_drop_outside:
  assumes "drop_data self \<noteq> []"
    and "x < of_int (hd (sorted_keys (drop_data self)))
         \<or> of_int (last (sorted_keys (drop_data self))) < x"
  shows "get_bullet_drop self x = Inr None"
proof -
  let ?ds = "sorted_keys (drop_data self)"
  have s: "sorted ?ds" by (rule sorted_sorted_keys)
  from assms(1) have ne: "?ds \<noteq> []" by (simp add: sorted_keys_Nil)
  have "\<forall>d \<in> set ?ds. of_int d \<noteq> x"
  proof
    fix d assume "d \<in> set ?ds"
    with s have "hd ?ds \<le> d" "d \<le> last ?ds" by (simp_all add: sorted_hd_le sorted_le_last)
    with assms(2) show "of_int d \<noteq> x" by auto
  qed
  then have nokey: "lookup_float (drop_data self) x = None"
    by (simp add: lookup_float_None_keys)
  show ?thesis
    unfolding get_bullet_drop_def Let_def
    using nokey assms(2) by (auto simp: py_min_sorted [OF s ne] py_max_sorted [OF s ne])
qed

lemma base_drift_lookup_outside:
  assumes "(\<forall>d \<in> set (sorted_keys (WIND_DRIFT_DATA self)). x < of_int d)
         \<or> (\<forall>d \<in> set (sorted_keys (WIND_DRIFT_DATA self)). of_int d < x)"
  shows "base_drift_lookup self x = Inr None"
proof -
  let ?ds = "sorted_keys (WIND_DRIFT_DATA self)"
  from assms have "\<forall>d \<in> set ?ds. of_int d \<noteq> x" by auto
  then have nokey: "lookup_float (WIND_DRIFT_DATA self) x = None"
    by (simp add: lookup_float_None_keys)
  from assms have "(\<forall>d \<in> set ?ds. x \<le> of_int d) \<or> (\<forall>d \<in> set ?ds. of_int d \<le> x)"
    by (meson less_imp_le)
  then have "drift_loop (WIND_DRIFT_DATA self) x ?ds None = Inr None"
    by (rule no_bracket_drift)
  with nokey show ?thesis by (simp add: base_drift_lookup_def)
qed

text \<open>Interpolating between two keys of the table raises nothing.\<close>

lemma interpolate_keys:
  assumes "d1 \<in> set (sorted_keys t)" "d2 \<in> set (sorted_keys t)" "d1 \<noteq> d2"
  shows "\<exists>v. interpolate t x d1 d2 = Inr v"
proof -
  from assms obtain v1 v2 where "map_of t d1 = Some v1" "map_of t d2 = Some v2"
    using getitem_key by blast
  with assms(3) show ?thesis by (simp add: interpolate_eq)
qed

lemma get_bullet_drop_inside:
  assumes "drop_data self \<noteq> []"
    and "of_int (hd (sorted_keys (drop_data self))) \<le> x"
    and "x \<le> of_int (last (sorted_keys (drop_data self)))"
  shows "\<exists>v. get_bullet_drop self x = Inr (Some v)"
proof (cases "lookup_float (drop_data self) x")
  case (Some v)
  then show ?thesis by (simp add: get_bullet_drop_def)
next
  case None
  let ?ds = "sorted_keys (drop_data self)"
  have s: "sorted ?ds" by (rule sorted_sorted_keys)
  from assms(1) have ne: "?ds \<noteq> []" by (simp add: sorted_keys_Nil)
  from None have "\<forall>d \<in> set ?ds. of_int d \<noteq> x" by (simp add: lookup_float_None_keys)
  with s ne assms(2,3) obtain d1 d2
    where adj: "adjacent ?ds d1 d2" and lt: "of_int d1 < x" "x < of_int d2"
    using exists_bracket by blast
  from adj have "d1 \<in> set ?ds" "d2 \<in> set ?ds" using adjacent_mem by blast+
  moreover from lt have "d1 \<noteq> d2" by auto
  ultimately obtain v where "interpolate (drop_data self) x d1 d2 = Inr v"
    using interpolate_keys by blast
  with get_bullet_drop_adjacent [OF adj lt] show ?thesis by simp
qed

lemma base_drift_lookup_inside:
  assumes "WIND_DRIFT_DATA self \<noteq> []"
    and "of_int (hd (sorted_keys (WIND_DRIFT_DATA self))) \<le> x"
    and "x \<le> of_int (last (sorted_keys (WIND_DRIFT_DATA self)))"
  shows "\<exists>v. base_drift_lookup self x = Inr (Some v)"
proof (cases "lookup_float (WIND_DRIFT_DATA self) x")
  case (Some v)
  then show ?thesis by (simp add: base_drift_lookup_def)
next
  case None
  let ?ds = "sorted_keys (WIND_DRIFT_DATA self)"
  have s: "sorted ?ds" by (rule sorted_sorted_keys)
  from assms(1) have ne: "?ds \<noteq> []" by (simp add: sorted_keys_Nil)
  from None have "\<forall>d \<in> set ?ds. of_int d \<noteq> x" by (simp add: lookup_float_None_keys)
  with s ne assms(2,3) obtain d1 d2
    where adj: "adjacent ?ds d1 d2" and lt: "of_int d1 < x" "x < of_int d2"
    using exists_bracket by blast
  from adj have "d1 \<in> set ?ds" "d2 \<in> set ?ds" using adjacent_mem by blast+
  moreover from lt have "d1 \<noteq> d2" by auto
  ultimately obtain v where "interpolate (WIND_DRIFT_DATA self) x d1 d2 = Inr v"
    using interpolate_keys by blast
  with base_drift_lookup_adjacent [OF adj lt] show ?thesis by simp
qed

text \<open>The tables of the calculator built by \<open>__init__\<close>.\<close>

lemma init_drop_keys:
  "sorted_keys (drop_data init_calculator) = [100, 200, 300, 400, 500, 600, 700, 800, 900, 1000]"
  by (simp add: init_calculator_def sorted_keys_def)

lemma init_drift_keys:
  "sorted_keys (WIND_DRIFT_DATA init_calculator)
     = [100, 200, 300, 400, 500, 600, 700, 800, 900, 1000]"
  by (simp add: init_calculator_def sorted_keys_def)

lemma init_tables_nonempty:
  "drop_data init_calculator \<noteq> []" "WIND_DRIFT_DATA init_calculator \<noteq> []"
  by (simp_all add: init_calculator_def)

text \<open>A convex combination lies between its end points.\<close>

lemma lerp_between:
  fixes v1 v2 x a b :: real
  assumes "a < x" "x < b"
  shows "min v1 v2 \<le> v1 + (v2 - v1) * (x - a) / (b - a)"
    and "v1 + (v2 - v1) * (x - a) / (b - a) \<le> max v1 v2"
    and "v1 \<noteq> v2 \<Longrightarrow> min v1 v2 < v1 + (v2 - v1) * (x - a) / (b - a)"
    and "v1 \<noteq> v2 \<Longrightarrow> v1 + (v2 - v1) * (x - a) / (b - a) < max v1 v2"
proof -
  define q where "q = (x - a) / (b - a)"
  from assms have q: "0 < q" "q < 1" by (simp_all add: q_def)
  have e: "v1 + (v2 - v1) * (x - a) / (b - a) = v1 + (v2 - v1) * q" by (simp add: q_def)
  have up: "v1 < v2 \<Longrightarrow> v1 < v1 + (v2 - v1) * q \<and> v1 + (v2 - v1) * q < v2"
  proof -
    assume "v1 < v2"
    then have "0 < (v2 - v1) * q" "(v2 - v1) * q < (v2 - v1) * 1"
      using q by (simp_all del: mult_1_right)
    then show ?thesis by simp
  qed
  have down: "v2 < v1 \<Longrightarrow> v2 < v1 + (v2 - v1) * q \<and> v1 + (v2 - v1) * q < v1"
  proof -
    assume "v2 < v1"
    then have "0 < (v1 - v2) * q" "(v1 - v2) * q < (v1 - v2) * 1"
      using q by (simp_all del: mult_1_right)
    then show ?thesis by (simp add: algebra_simps)
  qed
  show "min v1 v2 \<le> v1 + (v2 - v1) * (x - a) / (b - a)"
    unfolding e using up down by (cases v1 v2 rule: linorder_cases) auto
  show "v1 + (v2 - v1) * (x - a) / (b - a) \<le> max v1 v2"
    unfolding e using up down by (cases v1 v2 rule: linorder_cases) auto
  show "v1 \<noteq> v2 \<Longrightarrow> min v1 v2 < v1 + (v2 - v1) * (x - a) / (b - a)"
    unfolding e using up down by (cases v1 v2 rule: linorder_cases) auto
  show "v1 \<noteq> v2 \<Longrightarrow> v1 + (v2 - v1) * (x - a) / (b - a) < max v1 v2"
    unfolding e using up down by (cases v1 v2 rule: linorder_cases) auto
qed

lemma get_bullet_drop_lerp:
  assumes "adjacent (sorted_keys (drop_data self)) d1 d2"
    "map_of (drop_data self) d1 = Some v1" "map_of (drop_data self) d2 = Some v2"
    "of_int d1 < x" "x < of_int d2"
  shows "get_bullet_drop self x
           = Inr (Some (v1 + (v2 - v1) * (x - of_int d1) / (of_int d2 - of_int d1)))"
proof -
  from assms have "d1 \<noteq> d2" by auto
  with assms have "interpolate (drop_data self) x d1 d2
      = Inr (v1 + (v2 - v1) * (x - of_int d1) / (of_int d2 - of_int d1))"
    by (simp add: interpolate_eq)
  moreover from assms have "get_bullet_drop self x
      = (case interpolate (drop_data self) x d1 d2 of Inl e \<Rightarrow> Inl e | Inr v \<Rightarrow> Inr (Some v))"
    by (intro get_bullet_drop_adjacent) simp_all
  ultimately show ?thesis by (simp only: sum.case)
qed

lemma base_drift_lookup_lerp:
  assumes "adjacent (sorted_keys (WIND_DRIFT_DATA self)) d1 d2"
    "map_of (WIND_DRIFT_DATA self) d1 = Some w1" "map_of (WIND_DRIFT_DATA self) d2 = Some w2"
    "of_int d1 < x" "x < of_int d2"
  shows "base_drift_lookup self x
           = Inr (Some (w1 + (w2 - w1) * (x - of_int d1) / (of_int d2 - of_int d1)))"
proof -
  from assms have "d1 \<noteq> d2" by auto
  with assms have "interpolate (WIND_DRIFT_DATA self) x d1 d2
      = Inr (w1 + (w2 - w1) * (x - of_int d1) / (of_int d2 - of_int d1))"
    by (simp add: interpolate_eq)
  moreover from assms have "base_drift_lookup self x
      = (case interpolate (WIND_DRIFT_DATA self) x d1 d2 of
           Inl e \<Rightarrow> Inl e | Inr v \<Rightarrow> Inr (Some v))"
    by (intro base_drift_lookup_adjacent) simp_all
  ultimately show ?thesis by (simp only: sum.case)
qed

section \<open>Exceptions\<close>

text \<open>Neither loop raises on keys of the table it reads.\<close>

lemma drop_loop_total:
  "set ds \<subseteq> set (sorted_keys t) \<Longrightarrow> \<exists>r. drop_loop t x ds = Inr r"
proof (induction t x ds rule: drop_loop.induct)
  case (1 t x d1 d2 ds)
  show ?case
  proof (cases "of_int d1 < x \<and> x < of_int d2")
    case True
    then have "d1 \<noteq> d2" by auto
    with 1(2) obtain v where "interpolate t x d1 d2 = Inr v"
      using interpolate_keys [of d1 t d2 x] by auto
    with True show ?thesis by simp
  next
    case False
    with 1 show ?thesis by auto
  qed
qed simp_all

lemma drift_loop_total:
  "set ds \<subseteq> set (sorted_keys t) \<Longrightarrow> \<exists>r. drift_loop t x ds acc = Inr r"
proof (induction t x ds acc rule: drift_loop.induct)
  case (1 t x d1 d2 ds base_drift)
  show ?case
  proof (cases "of_int d1 < x \<and> x < of_int d2")
    case True
    then have "d1 \<noteq> d2" by auto
    with 1(3) obtain v where "interpolate t x d1 d2 = Inr v"
      using interpolate_keys [of d1 t d2 x] by auto
    with True 1 show ?thesis by simp
  next
    case False
    with 1 show ?thesis by auto
  qed
qed simp_all

lemma base_drift_lookup_total: "\<exists>r. base_drift_lookup self x = Inr r"
  using drift_loop_total [of "sorted_keys (WIND_DRIFT_DATA self)" "WIND_DRIFT_DATA self" x None]
  by (auto simp: base_drift_lookup_def split: option.splits)

lemma calculate_wind_drift_total: "\<exists>r. calculate_wind_drift self x s a = Inr r"
  using base_drift_lookup_total [of self x]
  by (auto simp: calculate_wind_drift_def Let_def split: option.splits)

lemma get_bullet_drop_total:
  assumes "drop_data self \<noteq> []"
  shows "\<exists>r. get_bullet_drop self x = Inr r"
proof -
  let ?ds = "sorted_keys (drop_data self)"
  have s: "sorted ?ds" by (rule sorted_sorted_keys)
  from assms have ne: "?ds \<noteq> []" by (simp add: sorted_keys_Nil)
  show ?thesis
    using drop_loop_total [of ?ds "drop_data self" x]
    by (auto simp: get_bullet_drop_def Let_def py_min_sorted [OF s ne] py_max_sorted [OF s ne]
        split: option.splits)
qed

text \<open>The wind drift in terms of the base drift (lines 102-113).\<close>

lemma calculate_wind_drift_eq:
  assumes "base_drift_lookup self x = Inr (Some b)"
  shows "calculate_wind_drift self x s a
           = Inr (Some (if 0 \<le> a \<and> a \<le> 180
                        then - (b * (\<bar>s * sin (radians a)\<bar> / 10))
                        else b * (\<bar>s * sin (radians a)\<bar> / 10)))"
  using assms by (simp add: calculate_wind_drift_def Let_def)

lemma init_base_drift_500: "base_drift_lookup init_calculator 500 = Inr (Some 14.6)"
  using base_drift_lookup_key [of init_calculator 500 "14.6"]
  by (simp add: init_calculator_def)

lemma init_drop_500: "get_bullet_drop init_calculator 500 = Inr (Some (- 81.23))"
  using get_bullet_drop_key [of init_calculator 500 "- 81.23"]
  by (simp add: init_calculator_def)

section \<open>Clicks\<close>

lemma clicks_of_eq:
  assumes "d \<noteq> 0"
  shows "clicks_of off d = Inr (py_round (\<bar>off / (1.047 * (d / 100))\<bar> * 4))"
proof -
  from assms have nz: "MOA_CONVERSION * (d / 100) \<noteq> 0" by (simp add: MOA_CONVERSION_def)
  have "\<bar>py_round (off / (MOA_CONVERSION * (d / 100)) * 4)\<bar>
          = py_round (\<bar>off / (MOA_CONVERSION * (d / 100))\<bar> * 4)"
    by (simp add: py_round_abs abs_mult)
  with nz show ?thesis
    by (simp add: clicks_of_def py_truediv_def CLICKS_PER_MOA_def MOA_CONVERSION_def)
qed

lemma clicks_of_nonneg: "clicks_of off d = Inr c \<Longrightarrow> 0 \<le> c"
  by (auto simp: clicks_of_def split: sum.splits)

lemma clicks_of_Inr_iff: "(\<exists>c. clicks_of off d = Inr c) \<longleftrightarrow> d \<noteq> 0"
  by (auto simp: clicks_of_def py_truediv_def MOA_CONVERSION_def)

text \<open>The result of \<open>calculate_adjustments\<close> in terms of the two lookups.\<close>

lemma calculate_adjustments_None:
  "get_bullet_drop self d = Inr None \<Longrightarrow> calculate_adjustments self d s a = Inr (None, None)"
  by (simp add: calculate_adjustments_def)

lemma calculate_adjustments_Some:
  assumes "get_bullet_drop self d = Inr (Some drop_inches)" "d \<noteq> 0"
    and "calculate_wind_drift self d s a = Inr wo"
  shows "calculate_adjustments self d s a
           = Inr (Some (ElevationData (py_round (\<bar>drop_inches / (1.047 * (d / 100))\<bar> * 4))
                          (if drop_inches < 0 then ''UP'' else ''DOWN'')),
                  map_option
                    (\<lambda>drift. WindageData (py_round (\<bar>drift / (1.047 * (d / 100))\<bar> * 4))
                       (if drift < 0 then ''LEFT'' else ''RIGHT''))
                    wo)"
  using assms
  by (cases wo) (simp_all add: calculate_adjustments_def clicks_of_eq Let_def)

lemma get_bullet_drop_Some_range:
  assumes "get_bullet_drop self d = Inr (Some v)" "drop_data self \<noteq> []"
  shows "of_int (hd (sorted_keys (drop_data self))) \<le> d
         \<and> d \<le> of_int (last (sorted_keys (drop_data self)))"
proof (rule ccontr)
  assume "\<not> ?thesis"
  then have "d < of_int (hd (sorted_keys (drop_data self)))
         \<or> of_int (last (sorted_keys (drop_data self))) < d" by auto
  with assms(2) have "get_bullet_drop self d = Inr None" by (rule get_bullet_drop_outside)
  with assms(1) show False by simp
qed

lemma calculate_adjustments_total:
  assumes "drop_data self \<noteq> []" "0 < hd (sorted_keys (drop_data self))"
  shows "\<exists>r. calculate_adjustments self d s a = Inr r"
proof -
  from assms(1) obtain r where r: "get_bullet_drop self d = Inr r"
    using get_bullet_drop_total by blast
  obtain wo where wo: "calculate_wind_drift self d s a = Inr wo"
    using calculate_wind_drift_total by blast
  show ?thesis
  proof (cases r)
    case None
    with r show ?thesis by (simp add: calculate_adjustments_None)
  next
    case (Some drop_inches)
    with r assms have "of_int (hd (sorted_keys (drop_data self))) \<le> d"
      using get_bullet_drop_Some_range by blast
    with assms(2) have "d \<noteq> 0" by auto
    with r Some wo show ?thesis by (simp add: calculate_adjustments_Some)
  qed
qed

lemma py_round_elevation_500: "py_round (\<bar>- 81.23 / (1.047 * (500 / 100))\<bar> * 4) = 62"
  by (simp add: py_round_def)

lemma py_round_windage_500: "py_round (\<bar>- 14.6 / (1.047 * (500 / 100))\<bar> * 4) = 11"
  by (simp add: py_round_def)

lemma init_wind_drift_500_10_90:
  "calculate_wind_drift init_calculator 500 10 90 = Inr (Some (- 14.6))"
  using calculate_wind_drift_eq [OF init_base_drift_500, of 10 90]
  by (simp add: sin_radians_90)

lemma init_adjustments_500_10_90:
  "calculate_adjustments init_calculator 500 10 90
     = Inr (Some (ElevationData 62 ''UP''), Some (WindageData 11 ''LEFT''))"
  using calculate_adjustments_Some [OF init_drop_500 _ init_wind_drift_500_10_90]
    py_round_elevation_500 py_round_windage_500
  by simp

lemma init_drop_50: "get_bullet_drop init_calculator 50 = Inr None"
  by (intro get_bullet_drop_outside) (simp_all add: init_tables_nonempty init_drop_keys)

text \<open>
  A pure head or tail wind in exact arithmetic: \<open>sin (radians 0)\<close> and \<open>sin (radians 180)\<close>
  are 0, so the crosswind component and the drift are 0 whatever the wind speed. At
  angle 0 the program agrees: \<open>math.sin(math.radians(0))\<close> is \<open>0.0\<close>. At angle 180 it does
  not: \<open>math.radians(180)\<close> is the double nearest to \<open>pi\<close>, \<open>math.sin\<close> of it is
  \<open>1.2246467991473532e-16\<close>, and at distance 500 with wind speed 10 the program returns
  the drift \<open>-1.7879843267551358e-15\<close>, which is strictly negative. The lemma is a fact of
  the exact reading only.
\<close>

lemma head_or_tail_wind_exact:
  assumes "base_drift_lookup self x = Inr (Some b)" "a = 0 \<or> a = 180"
  shows "calculate_wind_drift self x s a = Inr (Some 0)"
  using assms calculate_wind_drift_eq [OF assms(1), of s a]
  by (auto simp: sin_radians_0 sin_radians_180)

section \<open>The claims\<close>

text \<open>
  C1. A query distance strictly between two adjacent keys \<open>d1 < d2\<close> of a table gets the
  linear interpolation \<open>v1 + (v2 - v1) * (x - d1) / (d2 - d1)\<close> of the two stored values,
  from \<open>get_bullet_drop\<close> on the drop table and from the base-drift lookup of
  \<open>calculate_wind_drift\<close> on the drift table. The source multiplies by the quotient
  \<open>(x - d1) / (d2 - d1)\<close>, which is the same number in exact arithmetic.
\<close>

theorem interpolation_between_adjacent_keys:
  "(adjacent (sorted_keys (drop_data self)) d1 d2
      \<and> map_of (drop_data self) d1 = Some v1 \<and> map_of (drop_data self) d2 = Some v2
      \<and> of_int d1 < x \<and> x < of_int d2
    \<longrightarrow> get_bullet_drop self x
          = Inr (Some (v1 + (v2 - v1) * (x - of_int d1) / (of_int d2 - of_int d1))))
   \<and> (adjacent (sorted_keys (WIND_DRIFT_DATA self)) d1 d2
      \<and> map_of (WIND_DRIFT_DATA self) d1 = Some w1 \<and> map_of (WIND_DRIFT_DATA self) d2 = Some w2
      \<and> of_int d1 < x \<and> x < of_int d2
    \<longrightarrow> base_drift_lookup self x
          = Inr (Some (w1 + (w2 - w1) * (x - of_int d1) / (of_int d2 - of_int d1))))"
proof (intro conjI impI)
  assume h: "adjacent (sorted_keys (drop_data self)) d1 d2
      \<and> map_of (drop_data self) d1 = Some v1 \<and> map_of (drop_data self) d2 = Some v2
      \<and> of_int d1 < x \<and> x < of_int d2"
  then have "d1 \<noteq> d2" by auto
  with h have "interpolate (drop_data self) x d1 d2
      = Inr (v1 + (v2 - v1) * (x - of_int d1) / (of_int d2 - of_int d1))"
    by (simp add: interpolate_eq)
  moreover from h have "get_bullet_drop self x
      = (case interpolate (drop_data self) x d1 d2 of Inl e \<Rightarrow> Inl e | Inr v \<Rightarrow> Inr (Some v))"
    by (intro get_bullet_drop_adjacent) simp_all
  ultimately show "get_bullet_drop self x
      = Inr (Some (v1 + (v2 - v1) * (x - of_int d1) / (of_int d2 - of_int d1)))"
    by (simp only: sum.case)
next
  assume h: "adjacent (sorted_keys (WIND_DRIFT_DATA self)) d1 d2
      \<and> map_of (WIND_DRIFT_DATA self) d1 = Some w1 \<and> map_of (WIND_DRIFT_DATA self) d2 = Some w2
      \<and> of_int d1 < x \<and> x < of_int d2"
  then have "d1 \<noteq> d2" by auto
  with h have "interpolate (WIND_DRIFT_DATA self) x d1 d2
      = Inr (w1 + (w2 - w1) * (x - of_int d1) / (of_int d2 - of_int d1))"
    by (simp add: interpolate_eq)
  moreover from h have "base_drift_lookup self x
      = (case interpolate (WIND_DRIFT_DATA self) x d1 d2 of
           Inl e \<Rightarrow> Inl e | Inr v \<Rightarrow> Inr (Some v))"
    by (intro base_drift_lookup_adjacent) simp_all
  ultimately show "base_drift_lookup self x
      = Inr (Some (w1 + (w2 - w1) * (x - of_int d1) / (of_int d2 - of_int d1)))"
    by (simp only: sum.case)
qed

theorem interpolation_between_adjacent_keys_witness:
  "adjacent (sorted_keys (drop_data init_calculator)) 500 600
   \<and> map_of (drop_data init_calculator) 500 = Some (- 81.23)
   \<and> map_of (drop_data init_calculator) 600 = Some (- 125.47)
   \<and> adjacent (sorted_keys (WIND_DRIFT_DATA init_calculator)) 500 600
   \<and> map_of (WIND_DRIFT_DATA init_calculator) 500 = Some 14.6
   \<and> map_of (WIND_DRIFT_DATA init_calculator) 600 = Some 21.8
   \<and> get_bullet_drop init_calculator 550 = Inr (Some (- 103.35))
   \<and> base_drift_lookup init_calculator 550 = Inr (Some 18.2)"
proof -
  have a: "adjacent (sorted_keys (drop_data init_calculator)) 500 600"
    by (simp add: init_drop_keys)
  have b: "adjacent (sorted_keys (WIND_DRIFT_DATA init_calculator)) 500 600"
    by (simp add: init_drift_keys)
  have m: "map_of (drop_data init_calculator) 500 = Some (- 81.23)"
    "map_of (drop_data init_calculator) 600 = Some (- 125.47)"
    "map_of (WIND_DRIFT_DATA init_calculator) 500 = Some 14.6"
    "map_of (WIND_DRIFT_DATA init_calculator) 600 = Some 21.8"
    by (simp_all add: init_calculator_def)
  show ?thesis
    using a b m
      interpolation_between_adjacent_keys
        [of init_calculator 500 600 "- 81.23" "- 125.47" 550 "14.6" "21.8"]
    by simp
qed

text \<open>
  C2. On the tables of the calculator a distance strictly below 100, the least key, or
  strictly above 1000, the greatest key, gets \<open>None\<close> from \<open>get_bullet_drop\<close> and from
  \<open>calculate_wind_drift\<close>, whatever the wind: neither extrapolates.
\<close>

theorem out_of_range_is_unavailable:
  "x < 100 \<or> 1000 < x \<Longrightarrow>
     get_bullet_drop init_calculator x = Inr None
     \<and> calculate_wind_drift init_calculator x wind_speed wind_angle = Inr None"
proof
  assume h: "x < 100 \<or> 1000 < x"
  then show "get_bullet_drop init_calculator x = Inr None"
    by (intro get_bullet_drop_outside) (simp_all add: init_tables_nonempty init_drop_keys)
  from h have "base_drift_lookup init_calculator x = Inr None"
    by (intro base_drift_lookup_outside) (auto simp: init_drift_keys)
  then show "calculate_wind_drift init_calculator x wind_speed wind_angle = Inr None"
    by (simp add: calculate_wind_drift_def)
qed

theorem out_of_range_is_unavailable_witness:
  "get_bullet_drop init_calculator 50 = Inr None
   \<and> calculate_wind_drift init_calculator 50 10 90 = Inr None
   \<and> get_bullet_drop init_calculator 1500 = Inr None
   \<and> calculate_wind_drift init_calculator 1500 10 90 = Inr None"
  using out_of_range_is_unavailable [of 50 10 90] out_of_range_is_unavailable [of 1500 10 90]
  by simp

text \<open>
  C6. A query distance equal to a key of a table gets the value stored under that key,
  unchanged, from \<open>get_bullet_drop\<close> and from the base-drift lookup of
  \<open>calculate_wind_drift\<close>.
\<close>

theorem exact_key_returns_stored_value:
  "(map_of (drop_data self) k = Some v
      \<longrightarrow> get_bullet_drop self (of_int k) = Inr (Some v))
   \<and> (map_of (WIND_DRIFT_DATA self) k = Some w
      \<longrightarrow> base_drift_lookup self (of_int k) = Inr (Some w))"
  by (simp add: get_bullet_drop_key base_drift_lookup_key)

theorem exact_key_returns_stored_value_witness:
  "map_of (drop_data init_calculator) 500 = Some (- 81.23)
   \<and> map_of (WIND_DRIFT_DATA init_calculator) 500 = Some 14.6
   \<and> get_bullet_drop init_calculator 500 = Inr (Some (- 81.23))
   \<and> base_drift_lookup init_calculator 500 = Inr (Some 14.6)"
proof -
  have m: "map_of (drop_data init_calculator) 500 = Some (- 81.23)"
    "map_of (WIND_DRIFT_DATA init_calculator) 500 = Some 14.6"
    by (simp_all add: init_calculator_def)
  show ?thesis
    using m exact_key_returns_stored_value [of init_calculator 500 "- 81.23" "14.6"]
    by simp
qed

text \<open>
  C10. On the tables of the calculator every distance from 100 to 1000 gets a value from
  \<open>get_bullet_drop\<close> and a base drift from the lookup of \<open>calculate_wind_drift\<close>: the
  distance is a key or lies strictly between two adjacent keys, so neither lookup falls
  through to \<open>None\<close>.
\<close>

theorem in_range_lookup_succeeds:
  "100 \<le> x \<and> x \<le> 1000 \<Longrightarrow>
     (\<exists>v. get_bullet_drop init_calculator x = Inr (Some v))
     \<and> (\<exists>b. base_drift_lookup init_calculator x = Inr (Some b))
     \<and> (lookup_float (drop_data init_calculator) x \<noteq> None
        \<or> (\<exists>d1 d2. adjacent (sorted_keys (drop_data init_calculator)) d1 d2
              \<and> of_int d1 < x \<and> x < of_int d2))
     \<and> (lookup_float (WIND_DRIFT_DATA init_calculator) x \<noteq> None
        \<or> (\<exists>d1 d2. adjacent (sorted_keys (WIND_DRIFT_DATA init_calculator)) d1 d2
              \<and> of_int d1 < x \<and> x < of_int d2))"
proof (intro conjI)
  assume h: "100 \<le> x \<and> x \<le> 1000"
  then show "\<exists>v. get_bullet_drop init_calculator x = Inr (Some v)"
    by (intro get_bullet_drop_inside) (simp_all add: init_tables_nonempty init_drop_keys)
  from h show "\<exists>b. base_drift_lookup init_calculator x = Inr (Some b)"
    by (intro base_drift_lookup_inside) (simp_all add: init_tables_nonempty init_drift_keys)
  let ?ds = "sorted_keys (drop_data init_calculator)"
  let ?ws = "sorted_keys (WIND_DRIFT_DATA init_calculator)"
  from h have "real_of_int (hd ?ds) \<le> x" "x \<le> of_int (last ?ds)" "?ds \<noteq> []"
    by (simp_all add: init_drop_keys)
  then show "lookup_float (drop_data init_calculator) x \<noteq> None
        \<or> (\<exists>d1 d2. adjacent ?ds d1 d2 \<and> of_int d1 < x \<and> x < of_int d2)"
    using exists_bracket [OF sorted_sorted_keys, of "drop_data init_calculator" x]
    by (auto simp: lookup_float_None_keys)
  from h have "real_of_int (hd ?ws) \<le> x" "x \<le> of_int (last ?ws)" "?ws \<noteq> []"
    by (simp_all add: init_drift_keys)
  then show "lookup_float (WIND_DRIFT_DATA init_calculator) x \<noteq> None
        \<or> (\<exists>d1 d2. adjacent ?ws d1 d2 \<and> of_int d1 < x \<and> x < of_int d2)"
    using exists_bracket [OF sorted_sorted_keys, of "WIND_DRIFT_DATA init_calculator" x]
    by (auto simp: lookup_float_None_keys)
qed

theorem in_range_lookup_succeeds_witness:
  "(100::real) \<le> 437.5 \<and> (437.5::real) \<le> 1000
   \<and> (\<exists>v. get_bullet_drop init_calculator 437.5 = Inr (Some v))
   \<and> (\<exists>b. base_drift_lookup init_calculator 437.5 = Inr (Some b))"
  using in_range_lookup_succeeds [of "437.5"] by simp

text \<open>
  C9. At a query distance strictly between two adjacent keys the interpolated value lies
  between the two neighbouring stored values, strictly so when they differ; this holds
  for the drop lookup and for the base-drift lookup. On the drop table of the calculator,
  550 lies between the keys 500 (-81.23) and 600 (-125.47) and gets -103.35.
\<close>

theorem interpolated_value_between_neighbours:
  "(adjacent (sorted_keys (drop_data self)) d1 d2
      \<and> map_of (drop_data self) d1 = Some v1 \<and> map_of (drop_data self) d2 = Some v2
      \<and> of_int d1 < x \<and> x < of_int d2
    \<longrightarrow> (\<exists>y. get_bullet_drop self x = Inr (Some y)
            \<and> min v1 v2 \<le> y \<and> y \<le> max v1 v2
            \<and> (v1 \<noteq> v2 \<longrightarrow> min v1 v2 < y \<and> y < max v1 v2)))
   \<and> (adjacent (sorted_keys (WIND_DRIFT_DATA self)) d1 d2
      \<and> map_of (WIND_DRIFT_DATA self) d1 = Some w1 \<and> map_of (WIND_DRIFT_DATA self) d2 = Some w2
      \<and> of_int d1 < x \<and> x < of_int d2
    \<longrightarrow> (\<exists>y. base_drift_lookup self x = Inr (Some y)
            \<and> min w1 w2 \<le> y \<and> y \<le> max w1 w2
            \<and> (w1 \<noteq> w2 \<longrightarrow> min w1 w2 < y \<and> y < max w1 w2)))
   \<and> get_bullet_drop init_calculator 550 = Inr (Some (- 103.35))"
proof (intro conjI impI)
  assume h: "adjacent (sorted_keys (drop_data self)) d1 d2
      \<and> map_of (drop_data self) d1 = Some v1 \<and> map_of (drop_data self) d2 = Some v2
      \<and> of_int d1 < x \<and> x < of_int d2"
  let ?y = "v1 + (v2 - v1) * (x - of_int d1) / (of_int d2 - of_int d1)"
  from h have "get_bullet_drop self x = Inr (Some ?y)"
    by (intro get_bullet_drop_lerp) simp_all
  moreover from h have "min v1 v2 \<le> ?y" "?y \<le> max v1 v2"
    "v1 \<noteq> v2 \<longrightarrow> min v1 v2 < ?y \<and> ?y < max v1 v2"
    using lerp_between [of "of_int d1" x "of_int d2" v1 v2] by blast+
  ultimately show "\<exists>y. get_bullet_drop self x = Inr (Some y)
            \<and> min v1 v2 \<le> y \<and> y \<le> max v1 v2
            \<and> (v1 \<noteq> v2 \<longrightarrow> min v1 v2 < y \<and> y < max v1 v2)"
    by blast
next
  assume h: "adjacent (sorted_keys (WIND_DRIFT_DATA self)) d1 d2
      \<and> map_of (WIND_DRIFT_DATA self) d1 = Some w1 \<and> map_of (WIND_DRIFT_DATA self) d2 = Some w2
      \<and> of_int d1 < x \<and> x < of_int d2"
  let ?y = "w1 + (w2 - w1) * (x - of_int d1) / (of_int d2 - of_int d1)"
  from h have "base_drift_lookup self x = Inr (Some ?y)"
    by (intro base_drift_lookup_lerp) simp_all
  moreover from h have "min w1 w2 \<le> ?y" "?y \<le> max w1 w2"
    "w1 \<noteq> w2 \<longrightarrow> min w1 w2 < ?y \<and> ?y < max w1 w2"
    using lerp_between [of "of_int d1" x "of_int d2" w1 w2] by blast+
  ultimately show "\<exists>y. base_drift_lookup self x = Inr (Some y)
            \<and> min w1 w2 \<le> y \<and> y \<le> max w1 w2
            \<and> (w1 \<noteq> w2 \<longrightarrow> min w1 w2 < y \<and> y < max w1 w2)"
    by blast
next
  have "adjacent (sorted_keys (drop_data init_calculator)) 500 600"
    by (simp add: init_drop_keys)
  moreover have "map_of (drop_data init_calculator) 500 = Some (- 81.23)"
    "map_of (drop_data init_calculator) 600 = Some (- 125.47)"
    by (simp_all add: init_calculator_def)
  ultimately show "get_bullet_drop init_calculator 550 = Inr (Some (- 103.35))"
    using get_bullet_drop_lerp [of init_calculator 500 600 "- 81.23" "- 125.47" 550] by simp
qed

theorem interpolated_value_between_neighbours_witness:
  "adjacent (sorted_keys (drop_data init_calculator)) 500 600
   \<and> map_of (drop_data init_calculator) 500 = Some (- 81.23)
   \<and> map_of (drop_data init_calculator) 600 = Some (- 125.47)
   \<and> adjacent (sorted_keys (WIND_DRIFT_DATA init_calculator)) 500 600
   \<and> map_of (WIND_DRIFT_DATA init_calculator) 500 = Some 14.6
   \<and> map_of (WIND_DRIFT_DATA init_calculator) 600 = Some 21.8
   \<and> (\<exists>y. get_bullet_drop init_calculator 550 = Inr (Some y) \<and> - 125.47 < y \<and> y < - 81.23)
   \<and> (\<exists>y. base_drift_lookup init_calculator 550 = Inr (Some y) \<and> 14.6 < y \<and> y < 21.8)"
proof -
  have a: "adjacent (sorted_keys (drop_data init_calculator)) 500 600"
    by (simp add: init_drop_keys)
  have b: "adjacent (sorted_keys (WIND_DRIFT_DATA init_calculator)) 500 600"
    by (simp add: init_drift_keys)
  have m: "map_of (drop_data init_calculator) 500 = Some (- 81.23)"
    "map_of (drop_data init_calculator) 600 = Some (- 125.47)"
    "map_of (WIND_DRIFT_DATA init_calculator) 500 = Some 14.6"
    "map_of (WIND_DRIFT_DATA init_calculator) 600 = Some 21.8"
    by (simp_all add: init_calculator_def)
  show ?thesis
    using a b m
      interpolated_value_between_neighbours
        [of init_calculator 500 600 "- 81.23" "- 125.47" 550 "14.6" "21.8"]
    by simp blast
qed

text \<open>
  C3. Where the base-drift lookup gives \<open>base_drift\<close>, \<open>calculate_wind_drift\<close> returns
  \<open>base_drift * (|s * sin (radians a)| / 10)\<close>, negated when \<open>0 \<le> a \<le> 180\<close> and as it is
  otherwise. On the tables of the calculator every distance from 100 to 1000 has a base
  drift; distance 500 with wind speed 10 gives -14.6 at angle 90 and 14.6 at angle 270.
\<close>

theorem wind_drift_scaled_and_signed:
  "(base_drift_lookup self x = Inr (Some b)
      \<longrightarrow> calculate_wind_drift self x s a
            = Inr (Some (if 0 \<le> a \<and> a \<le> 180
                         then - (b * (\<bar>s * sin (radians a)\<bar> / 10))
                         else b * (\<bar>s * sin (radians a)\<bar> / 10))))
   \<and> (100 \<le> x \<and> x \<le> 1000
      \<longrightarrow> (\<exists>b. base_drift_lookup init_calculator x = Inr (Some b)
              \<and> calculate_wind_drift init_calculator x s a
                  = Inr (Some (if 0 \<le> a \<and> a \<le> 180
                               then - (b * (\<bar>s * sin (radians a)\<bar> / 10))
                               else b * (\<bar>s * sin (radians a)\<bar> / 10)))))
   \<and> calculate_wind_drift init_calculator 500 10 90 = Inr (Some (- 14.6))
   \<and> calculate_wind_drift init_calculator 500 10 270 = Inr (Some 14.6)"
proof (intro conjI impI)
  assume "base_drift_lookup self x = Inr (Some b)"
  then show "calculate_wind_drift self x s a
            = Inr (Some (if 0 \<le> a \<and> a \<le> 180
                         then - (b * (\<bar>s * sin (radians a)\<bar> / 10))
                         else b * (\<bar>s * sin (radians a)\<bar> / 10)))"
    by (rule calculate_wind_drift_eq)
next
  assume "100 \<le> x \<and> x \<le> 1000"
  then obtain b where b: "base_drift_lookup init_calculator x = Inr (Some b)"
    using base_drift_lookup_inside [of init_calculator x]
    by (auto simp: init_tables_nonempty init_drift_keys)
  from calculate_wind_drift_eq [OF b] b
  show "\<exists>b. base_drift_lookup init_calculator x = Inr (Some b)
              \<and> calculate_wind_drift init_calculator x s a
                  = Inr (Some (if 0 \<le> a \<and> a \<le> 180
                               then - (b * (\<bar>s * sin (radians a)\<bar> / 10))
                               else b * (\<bar>s * sin (radians a)\<bar> / 10)))"
    by blast
next
  show "calculate_wind_drift init_calculator 500 10 90 = Inr (Some (- 14.6))"
    using calculate_wind_drift_eq [OF init_base_drift_500, of 10 90]
    by (simp add: sin_radians_90)
next
  show "calculate_wind_drift init_calculator 500 10 270 = Inr (Some 14.6)"
    using calculate_wind_drift_eq [OF init_base_drift_500, of 10 270]
    by (simp add: sin_radians_270)
qed

theorem wind_drift_scaled_and_signed_witness:
  "base_drift_lookup init_calculator 500 = Inr (Some 14.6)
   \<and> calculate_wind_drift init_calculator 500 20 90 = Inr (Some (- 29.2))
   \<and> calculate_wind_drift init_calculator 500 20 270 = Inr (Some 29.2)
   \<and> (\<exists>b. base_drift_lookup init_calculator 550 = Inr (Some b)
        \<and> calculate_wind_drift init_calculator 550 10 270 = Inr (Some b))"
proof -
  have "calculate_wind_drift init_calculator 500 20 90 = Inr (Some (- 29.2))"
    using wind_drift_scaled_and_signed [of init_calculator 500 "14.6" 20 90]
      init_base_drift_500
    by (simp add: sin_radians_90)
  moreover have "calculate_wind_drift init_calculator 500 20 270 = Inr (Some 29.2)"
    using wind_drift_scaled_and_signed [of init_calculator 500 "14.6" 20 270]
      init_base_drift_500
    by (simp add: sin_radians_270)
  moreover have "\<exists>b. base_drift_lookup init_calculator 550 = Inr (Some b)
        \<and> calculate_wind_drift init_calculator 550 10 270 = Inr (Some b)"
    using wind_drift_scaled_and_signed [of init_calculator 550 0 10 270]
    by (simp add: sin_radians_270)
  ultimately show ?thesis using init_base_drift_500 by simp
qed

text \<open>
  C4. For a distance \<open>d > 0\<close> with a drop, \<open>calculate_adjustments\<close> returns an elevation whose
  click count is \<open>round(|moa| * 4)\<close> for \<open>moa = drop / (1.047 * (d / 100))\<close>, an integer
  within one half of \<open>|moa| * 4\<close>; where there is a drift, the windage click count is the
  same function of the drift. On the calculator, distance 500 has the drop -81.23 and
  gets 62 clicks UP.
\<close>

theorem clicks_from_offset:
  "(0 < d \<and> get_bullet_drop self d = Inr (Some drop_inches)
      \<longrightarrow> (\<exists>e w. calculate_adjustments self d s a = Inr (Some e, w)
             \<and> ElevationData.clicks e
                 = py_round (\<bar>drop_inches / (1.047 * (d / 100))\<bar> * 4)
             \<and> \<bar>real_of_int (ElevationData.clicks e)
                  - \<bar>drop_inches / (1.047 * (d / 100))\<bar> * 4\<bar> \<le> 1 / 2
             \<and> (\<forall>drift_inches. calculate_wind_drift self d s a = Inr (Some drift_inches)
                  \<longrightarrow> (\<exists>wd. w = Some wd
                         \<and> WindageData.clicks wd
                             = py_round (\<bar>drift_inches / (1.047 * (d / 100))\<bar> * 4)
                         \<and> \<bar>real_of_int (WindageData.clicks wd)
                              - \<bar>drift_inches / (1.047 * (d / 100))\<bar> * 4\<bar> \<le> 1 / 2))))
   \<and> get_bullet_drop init_calculator 500 = Inr (Some (- 81.23))
   \<and> (\<exists>w. calculate_adjustments init_calculator 500 s a
              = Inr (Some (ElevationData 62 ''UP''), w))"
proof (intro conjI impI)
  assume h: "0 < d \<and> get_bullet_drop self d = Inr (Some drop_inches)"
  obtain wo where wo: "calculate_wind_drift self d s a = Inr wo"
    using calculate_wind_drift_total by blast
  let ?e = "ElevationData (py_round (\<bar>drop_inches / (1.047 * (d / 100))\<bar> * 4))
              (if drop_inches < 0 then ''UP'' else ''DOWN'')"
  let ?w = "map_option
              (\<lambda>drift. WindageData (py_round (\<bar>drift / (1.047 * (d / 100))\<bar> * 4))
                 (if drift < 0 then ''LEFT'' else ''RIGHT''))
              wo"
  from h wo have "calculate_adjustments self d s a = Inr (Some ?e, ?w)"
    by (intro calculate_adjustments_Some) simp_all
  moreover have "ElevationData.clicks ?e = py_round (\<bar>drop_inches / (1.047 * (d / 100))\<bar> * 4)"
    by simp
  moreover have "\<bar>real_of_int (ElevationData.clicks ?e)
                  - \<bar>drop_inches / (1.047 * (d / 100))\<bar> * 4\<bar> \<le> 1 / 2"
    using py_round_nearest [of "\<bar>drop_inches / (1.047 * (d / 100))\<bar> * 4"] by simp
  moreover have "\<forall>drift_inches. calculate_wind_drift self d s a = Inr (Some drift_inches)
                  \<longrightarrow> (\<exists>wd. ?w = Some wd
                         \<and> WindageData.clicks wd
                             = py_round (\<bar>drift_inches / (1.047 * (d / 100))\<bar> * 4)
                         \<and> \<bar>real_of_int (WindageData.clicks wd)
                              - \<bar>drift_inches / (1.047 * (d / 100))\<bar> * 4\<bar> \<le> 1 / 2)"
  proof (intro allI impI)
    fix drift_inches
    assume "calculate_wind_drift self d s a = Inr (Some drift_inches)"
    with wo have "wo = Some drift_inches" by simp
    then show "\<exists>wd. ?w = Some wd
                         \<and> WindageData.clicks wd
                             = py_round (\<bar>drift_inches / (1.047 * (d / 100))\<bar> * 4)
                         \<and> \<bar>real_of_int (WindageData.clicks wd)
                              - \<bar>drift_inches / (1.047 * (d / 100))\<bar> * 4\<bar> \<le> 1 / 2"
      using py_round_nearest [of "\<bar>drift_inches / (1.047 * (d / 100))\<bar> * 4"] by simp
  qed
  ultimately show "\<exists>e w. calculate_adjustments self d s a = Inr (Some e, w)
             \<and> ElevationData.clicks e
                 = py_round (\<bar>drop_inches / (1.047 * (d / 100))\<bar> * 4)
             \<and> \<bar>real_of_int (ElevationData.clicks e)
                  - \<bar>drop_inches / (1.047 * (d / 100))\<bar> * 4\<bar> \<le> 1 / 2
             \<and> (\<forall>drift_inches. calculate_wind_drift self d s a = Inr (Some drift_inches)
                  \<longrightarrow> (\<exists>wd. w = Some wd
                         \<and> WindageData.clicks wd
                             = py_round (\<bar>drift_inches / (1.047 * (d / 100))\<bar> * 4)
                         \<and> \<bar>real_of_int (WindageData.clicks wd)
                              - \<bar>drift_inches / (1.047 * (d / 100))\<bar> * 4\<bar> \<le> 1 / 2))"
    by blast
next
  show "get_bullet_drop init_calculator 500 = Inr (Some (- 81.23))"
    by (rule init_drop_500)
next
  obtain wo where wo: "calculate_wind_drift init_calculator 500 s a = Inr wo"
    using calculate_wind_drift_total by blast
  show "\<exists>w. calculate_adjustments init_calculator 500 s a
              = Inr (Some (ElevationData 62 ''UP''), w)"
    using calculate_adjustments_Some [OF init_drop_500 _ wo] py_round_elevation_500
    by simp
qed

theorem clicks_from_offset_witness:
  "(0::real) < 500
   \<and> get_bullet_drop init_calculator 500 = Inr (Some (- 81.23))
   \<and> calculate_wind_drift init_calculator 500 10 90 = Inr (Some (- 14.6))
   \<and> (\<exists>e wd. calculate_adjustments init_calculator 500 10 90 = Inr (Some e, Some wd)
         \<and> ElevationData.clicks e = 62 \<and> WindageData.clicks wd = 11)"
proof -
  from clicks_from_offset [of 500 init_calculator "- 81.23" 10 90] init_drop_500
  obtain e w where r: "calculate_adjustments init_calculator 500 10 90 = Inr (Some e, w)"
    and e: "ElevationData.clicks e = py_round (\<bar>- 81.23 / (1.047 * (500 / 100))\<bar> * 4)"
    and w: "\<forall>drift_inches.
              calculate_wind_drift init_calculator 500 10 90 = Inr (Some drift_inches)
              \<longrightarrow> (\<exists>wd. w = Some wd
                     \<and> WindageData.clicks wd
                         = py_round (\<bar>drift_inches / (1.047 * (500 / 100))\<bar> * 4)
                     \<and> \<bar>real_of_int (WindageData.clicks wd)
                          - \<bar>drift_inches / (1.047 * (500 / 100))\<bar> * 4\<bar> \<le> 1 / 2)"
    by auto
  from w init_wind_drift_500_10_90
  obtain wd where "w = Some wd"
    "WindageData.clicks wd = py_round (\<bar>- 14.6 / (1.047 * (500 / 100))\<bar> * 4)"
    by blast
  with r e show ?thesis
    using init_drop_500 init_wind_drift_500_10_90
    by (simp only: py_round_elevation_500 py_round_windage_500) simp
qed

text \<open>
  C5. Missing data is returned, not raised. For any tables: when the drop lookup is
  \<open>None\<close> the result of \<open>calculate_adjustments\<close> is \<open>(None, None)\<close>; when the drop lookup
  gives a value, at a distance other than 0, and the drift is \<open>None\<close>, the result is an
  elevation paired with \<open>None\<close>. On the tables of the calculator every call returns,
  for real (finite) distance, wind speed and wind angle in the exact reading of the
  arithmetic; a double that overflows to an infinity (a wind speed near \<open>1e308\<close> makes
  \<open>round\<close> raise OverflowError) is outside this reading and is no case of missing data.
\<close>

theorem missing_data_is_returned_not_raised:
  "(\<exists>r. calculate_adjustments init_calculator d s a = Inr r)
   \<and> (get_bullet_drop self d = Inr None
      \<longrightarrow> calculate_adjustments self d s a = Inr (None, None))
   \<and> (get_bullet_drop self d = Inr (Some drop_inches) \<and> d \<noteq> 0
      \<and> calculate_wind_drift self d s a = Inr None
      \<longrightarrow> calculate_adjustments self d s a
            = Inr (Some (ElevationData (py_round (\<bar>drop_inches / (1.047 * (d / 100))\<bar> * 4))
                           (if drop_inches < 0 then ''UP'' else ''DOWN'')),
                   None))"
proof (intro conjI impI)
  show "\<exists>r. calculate_adjustments init_calculator d s a = Inr r"
    by (rule calculate_adjustments_total) (simp_all add: init_tables_nonempty init_drop_keys)
next
  assume "get_bullet_drop self d = Inr None"
  then show "calculate_adjustments self d s a = Inr (None, None)"
    by (rule calculate_adjustments_None)
next
  assume h: "get_bullet_drop self d = Inr (Some drop_inches) \<and> d \<noteq> 0
      \<and> calculate_wind_drift self d s a = Inr None"
  then show "calculate_adjustments self d s a
            = Inr (Some (ElevationData (py_round (\<bar>drop_inches / (1.047 * (d / 100))\<bar> * 4))
                           (if drop_inches < 0 then ''UP'' else ''DOWN'')),
                   None)"
    using calculate_adjustments_Some [of self d drop_inches s a None] by simp
qed

theorem missing_data_is_returned_not_raised_witness:
  "get_bullet_drop init_calculator 50 = Inr None
   \<and> calculate_adjustments init_calculator 50 10 90 = Inr (None, None)
   \<and> get_bullet_drop
         \<lparr>drop_data = [(100, - 1.92), (500, - 81.23), (1000, - 444.27)],
          WIND_DRIFT_DATA = [(100, 0.5), (200, 2.1)]\<rparr> 500
       = Inr (Some (- 81.23))
   \<and> calculate_wind_drift
         \<lparr>drop_data = [(100, - 1.92), (500, - 81.23), (1000, - 444.27)],
          WIND_DRIFT_DATA = [(100, 0.5), (200, 2.1)]\<rparr> 500 10 90
       = Inr None
   \<and> calculate_adjustments
         \<lparr>drop_data = [(100, - 1.92), (500, - 81.23), (1000, - 444.27)],
          WIND_DRIFT_DATA = [(100, 0.5), (200, 2.1)]\<rparr> 500 10 90
       = Inr (Some (ElevationData 62 ''UP''), None)"
proof -
  let ?c = "\<lparr>drop_data = [(100, - 1.92), (500, - 81.23), (1000, - 444.27)],
            WIND_DRIFT_DATA = [(100, 0.5), (200, 2.1)]\<rparr>"
  have lo: "calculate_adjustments init_calculator 50 10 90 = Inr (None, None)"
    using missing_data_is_returned_not_raised [of 50 10 90 init_calculator] init_drop_50
    by simp
  have dr: "get_bullet_drop ?c 500 = Inr (Some (- 81.23))"
    using get_bullet_drop_key [of ?c 500 "- 81.23"] by simp
  have "base_drift_lookup ?c 500 = Inr None"
    by (intro base_drift_lookup_outside) (simp add: sorted_keys_def)
  then have wd: "calculate_wind_drift ?c 500 10 90 = Inr None"
    by (simp add: calculate_wind_drift_def)
  have "calculate_adjustments ?c 500 10 90 = Inr (Some (ElevationData 62 ''UP''), None)"
    using missing_data_is_returned_not_raised [of 500 10 90 ?c "- 81.23"]
      dr wd py_round_elevation_500
    by simp
  with lo dr wd init_drop_50 show ?thesis by simp
qed

text \<open>
  C8. In a result of \<open>calculate_adjustments\<close> every click count is a non-negative integer;
  the elevation direction is UP when the drop is strictly negative and DOWN otherwise,
  and the windage direction is LEFT when the signed drift is strictly negative and RIGHT
  otherwise.
\<close>

theorem clicks_nonnegative_direction_by_sign:
  "calculate_adjustments self d s a = Inr (eo, wo) \<Longrightarrow>
     (\<forall>e. eo = Some e
        \<longrightarrow> 0 \<le> ElevationData.clicks e
            \<and> (\<exists>drop_inches. get_bullet_drop self d = Inr (Some drop_inches)
                 \<and> ElevationData.direction e = (if drop_inches < 0 then ''UP'' else ''DOWN'')))
     \<and> (\<forall>w. wo = Some w
        \<longrightarrow> 0 \<le> WindageData.clicks w
            \<and> (\<exists>drift_inches. calculate_wind_drift self d s a = Inr (Some drift_inches)
                 \<and> WindageData.direction w
                     = (if drift_inches < 0 then ''LEFT'' else ''RIGHT'')))"
proof -
  assume res: "calculate_adjustments self d s a = Inr (eo, wo)"
  obtain wr where wr: "calculate_wind_drift self d s a = Inr wr"
    using calculate_wind_drift_total by blast
  from res obtain r where r: "get_bullet_drop self d = Inr r"
    by (cases "get_bullet_drop self d") (simp_all add: calculate_adjustments_def)
  show ?thesis
  proof (cases r)
    case None
    with r res show ?thesis by (simp add: calculate_adjustments_None)
  next
    case (Some drop_inches)
    with r have dr: "get_bullet_drop self d = Inr (Some drop_inches)" by simp
    with res obtain c where "clicks_of drop_inches d = Inr c"
      by (cases "clicks_of drop_inches d") (simp_all add: calculate_adjustments_def)
    then have "d \<noteq> 0" using clicks_of_Inr_iff by blast
    define ce where "ce = py_round (\<bar>drop_inches / (1.047 * (d / 100))\<bar> * 4)"
    define cw where "cw = (\<lambda>drift. py_round (\<bar>drift / (1.047 * (d / 100))\<bar> * 4))"
    have ce: "0 \<le> ce"
      unfolding ce_def by (rule py_round_nonneg) simp
    have cw: "0 \<le> cw x" for x
      unfolding cw_def by (rule py_round_nonneg) simp
    from calculate_adjustments_Some [OF dr \<open>d \<noteq> 0\<close> wr] res
    have eo: "eo = Some (ElevationData ce (if drop_inches < 0 then ''UP'' else ''DOWN''))"
      and wo: "wo = map_option
                      (\<lambda>drift. WindageData (cw drift)
                         (if drift < 0 then ''LEFT'' else ''RIGHT''))
                      wr"
      unfolding ce_def cw_def by simp_all
    have "\<forall>e. eo = Some e
        \<longrightarrow> 0 \<le> ElevationData.clicks e
            \<and> (\<exists>drop_inches. get_bullet_drop self d = Inr (Some drop_inches)
                 \<and> ElevationData.direction e = (if drop_inches < 0 then ''UP'' else ''DOWN''))"
      using eo dr ce by simp
    moreover have "\<forall>w. wo = Some w
        \<longrightarrow> 0 \<le> WindageData.clicks w
            \<and> (\<exists>drift_inches. calculate_wind_drift self d s a = Inr (Some drift_inches)
                 \<and> WindageData.direction w
                     = (if drift_inches < 0 then ''LEFT'' else ''RIGHT''))"
      using wo wr cw by (cases wr) simp_all
    ultimately show ?thesis by blast
  qed
qed

theorem clicks_nonnegative_direction_by_sign_witness:
  "calculate_adjustments init_calculator 500 10 90
     = Inr (Some (ElevationData 62 ''UP''), Some (WindageData 11 ''LEFT''))
   \<and> get_bullet_drop init_calculator 500 = Inr (Some (- 81.23))
   \<and> calculate_wind_drift init_calculator 500 10 90 = Inr (Some (- 14.6))
   \<and> (0::int) \<le> 62 \<and> (0::int) \<le> 11"
  using clicks_nonnegative_direction_by_sign [OF init_adjustments_500_10_90]
    init_adjustments_500_10_90 init_drop_500 init_wind_drift_500_10_90
  by simp

end
